theory Spec2Isabelle
  imports Main
begin

section \<open>Offline cache service (offlineCacheService)\<close>

subsection \<open>Payloads and JavaScript truthiness\<close>

text \<open>
  Cached payloads are JSON values. The service tests them with \<^verbatim>\<open>if (cachedData)\<close>,
  so the JavaScript notion of a truthy value is part of the behaviour: \<^verbatim>\<open>null\<close>,
  \<^verbatim>\<open>false\<close>, \<^verbatim>\<open>0\<close> and the empty string are falsy, every array and object is truthy.
  \<^verbatim>\<open>JSON.parse (JSON.stringify v)\<close> is taken as the identity on these values, so the
  store holds the parsed entry.
\<close>

datatype json =
    JNull
  | JBool bool
  | JNum int
  | JStr string
  | JArr "json list"
  | JObj "(string \<times> json) list"

fun truthy :: "json \<Rightarrow> bool" where
  "truthy JNull = False"
| "truthy (JBool b) = b"
| "truthy (JNum n) = (n \<noteq> 0)"
| "truthy (JStr s) = (s \<noteq> [])"
| "truthy (JArr xs) = True"
| "truthy (JObj kvs) = True"

text \<open>
  An expiry duration is a number of milliseconds or \<^verbatim>\<open>null\<close> (\<open>None\<close>).
  \<^verbatim>\<open>a || b\<close> on two such values yields \<open>a\<close> when it is truthy (a non-zero number) and
  \<open>b\<close> otherwise.
\<close>

fun num_truthy :: "int option \<Rightarrow> bool" where
  "num_truthy None = False"
| "num_truthy (Some n) = (n \<noteq> 0)"

definition js_or :: "int option \<Rightarrow> int option \<Rightarrow> int option" where
  "js_or a b = (if num_truthy a then a else b)"

text \<open>\<^verbatim>\<open>maxAge && age > maxAge\<close>\<close>

fun expired :: "int option \<Rightarrow> int \<Rightarrow> bool" where
  "expired None age = False"
| "expired (Some maxAge) age = (maxAge \<noteq> 0 \<and> age > maxAge)"

subsection \<open>State of the service\<close>

text \<open>
  \<^verbatim>\<open>{ data, timestamp: Date.now(), expiryMs }\<close> as written by \<^verbatim>\<open>setCache\<close>.
\<close>

record cache_entry =
  data :: json
  timestamp :: int
  expiryMs :: "int option"

text \<open>
  The state the service works on: the key-value store (\<^verbatim>\<open>AsyncStorage\<close>), the wall clock
  read by \<^verbatim>\<open>Date.now()\<close>, and the service's own \<^verbatim>\<open>isOnline\<close> field (initially true).
  Storage operations are taken to succeed, so the \<^verbatim>\<open>catch\<close> branches that only log a
  storage error are not reachable in the model.
\<close>

record cache_state =
  storage :: "string \<rightharpoonup> cache_entry"
  clock :: int
  isOnline :: bool

text \<open>The fields of a \<^verbatim>\<open>NetInfo\<close> state; both are \<^verbatim>\<open>boolean | null\<close>.\<close>

record netinfo =
  isConnected :: "bool option"
  isInternetReachable :: "bool option"

text \<open>\<^verbatim>\<open>netInfo.isConnected && netInfo.isInternetReachable !== false\<close>, as a truth value.\<close>

definition online_of :: "netinfo \<Rightarrow> bool" where
  "online_of ni = (isConnected ni = Some True \<and> isInternetReachable ni \<noteq> Some False)"

definition checkOnline :: "netinfo \<Rightarrow> cache_state \<Rightarrow> cache_state" where
  "checkOnline ni s = s\<lparr>isOnline := online_of ni\<rparr>"

subsection \<open>setCache and getCache\<close>

definition setCache :: "string \<Rightarrow> json \<Rightarrow> int option \<Rightarrow> cache_state \<Rightarrow> cache_state" where
  "setCache key d expiry s =
     s\<lparr>storage := (storage s)(key \<mapsto> \<lparr>data = d, timestamp = clock s, expiryMs = expiry\<rparr>)\<rparr>"

text \<open>
  \<^verbatim>\<open>getCache\<close> returns \<^verbatim>\<open>null\<close> (\<open>JNull\<close>) when nothing is stored or the entry is expired;
  an expired entry is removed from the store (\<^verbatim>\<open>AsyncStorage.removeItem(key)\<close>).
\<close>

definition getCache :: "string \<Rightarrow> int option \<Rightarrow> cache_state \<Rightarrow> json \<times> cache_state" where
  "getCache key expiry s =
     (case storage s key of
        None \<Rightarrow> (JNull, s)
      | Some cached \<Rightarrow>
          (let age = clock s - timestamp cached;
               maxAge = js_or expiry (expiryMs cached)
           in if expired maxAge age
              then (JNull, s\<lparr>storage := (storage s)(key := None)\<rparr>)
              else (data cached, s)))"

subsection \<open>fetchWithCache\<close>

text \<open>
  The remote fetch is an opaque asynchronous operation on a remote side of type \<open>'r\<close>.
  Each invocation either resolves with a payload or rejects with an error, after some
  number of milliseconds, and leaves the remote side in a new state, so that an invocation
  is visible in the remote state. A duration of 0 stands for a promise that is already
  settled when the fetch function returns it.
\<close>

datatype fetch_outcome = Resolves json | Rejects string

type_synonym 'r fetchFunction = "'r \<Rightarrow> (fetch_outcome \<times> nat) \<times> 'r"

text \<open>
  What \<^verbatim>\<open>fetchWithCache\<close> throws: its own \<^verbatim>\<open>'No cached data available offline'\<close>, or the
  error of the remote fetch, rethrown.
\<close>

datatype fetch_error = NoCachedData | FetchError string

text \<open>
  The result of a call: what the caller receives, the state of the service when the
  caller resumes, the state of the remote side at that moment, and whether a background
  refresh is still running then.
\<close>

record 'r fetch_result =
  outcome :: "fetch_error + json"
  after :: cache_state
  world :: 'r
  background :: bool

text \<open>
  \<^verbatim>\<open>refreshInBackground\<close>, started in a given state and run to completion with nothing
  else happening in between: the remote fetch is invoked at once, the cache is written
  when the fetch resolves, and a rejection is only logged. The result gives the time the
  refresh takes, the state of the service it leaves, and the remote side after the fetch.
\<close>

definition refreshInBackground ::
    "string \<Rightarrow> 'r fetchFunction \<Rightarrow> int option \<Rightarrow> 'r \<Rightarrow> cache_state
       \<Rightarrow> nat \<times> cache_state \<times> 'r" where
  "refreshInBackground cacheKey fetchFunction expiry w s =
     (case fetchFunction w of
        ((Resolves d, ms), w1) \<Rightarrow>
          (ms, setCache cacheKey d expiry (s\<lparr>clock := clock s + int ms\<rparr>), w1)
      | ((Rejects e, ms), w1) \<Rightarrow> (ms, s\<lparr>clock := clock s + int ms\<rparr>, w1))"

text \<open>
  \<^verbatim>\<open>fetchWithCache\<close>; \<open>ni\<close> is what \<^verbatim>\<open>NetInfo.fetch()\<close> answers and \<open>w\<close> the remote side
  before the call. On a cache hit while online, \<^verbatim>\<open>refreshInBackground\<close> is called without
  \<^verbatim>\<open>await\<close> before the cached data is returned: the remote fetch has been invoked when
  the caller resumes. If that fetch settles at once, the refresh has run to its end, cache
  write included, before the caller resumes; otherwise it is still running then and the
  store is as the read left it.
\<close>

definition fetchWithCache ::
    "string \<Rightarrow> 'r fetchFunction \<Rightarrow> int option \<Rightarrow> bool \<Rightarrow> netinfo \<Rightarrow> 'r \<Rightarrow> cache_state
       \<Rightarrow> 'r fetch_result" where
  "fetchWithCache cacheKey fetchFunction expiry forceRefresh ni w s =
     (let s0 = checkOnline ni s in
      if \<not> isOnline s0 then
        (case getCache cacheKey expiry s0 of
           (cachedData, s1) \<Rightarrow>
             if truthy cachedData
             then \<lparr>outcome = Inr cachedData, after = s1, world = w, background = False\<rparr>
             else \<lparr>outcome = Inl NoCachedData, after = s1, world = w, background = False\<rparr>)
      else
        (case (if \<not> forceRefresh then getCache cacheKey expiry s0 else (JNull, s0)) of
           (cachedData, s1) \<Rightarrow>
             if \<not> forceRefresh \<and> truthy cachedData
             then
               (case refreshInBackground cacheKey fetchFunction expiry w s1 of
                  (ms, refreshed, w1) \<Rightarrow>
                    \<lparr>outcome = Inr cachedData,
                     after = (if ms = 0 then refreshed else s1),
                     world = w1, background = (0 < ms)\<rparr>)
             else
               (case fetchFunction w of
                  ((Resolves d, ms), w1) \<Rightarrow>
                    \<lparr>outcome = Inr d,
                     after = setCache cacheKey d expiry (s1\<lparr>clock := clock s1 + int ms\<rparr>),
                     world = w1, background = False\<rparr>
                | ((Rejects e, ms), w1) \<Rightarrow>
                    (case getCache cacheKey None (s1\<lparr>clock := clock s1 + int ms\<rparr>) of
                       (fallback, s3) \<Rightarrow>
                         if truthy fallback
                         then \<lparr>outcome = Inr fallback, after = s3,
                               world = w1, background = False\<rparr>
                         else \<lparr>outcome = Inl (FetchError e), after = s3,
                               world = w1, background = False\<rparr>))))"

subsection \<open>The connectivity listener of the cache service\<close>

text \<open>
  The callback registered by \<^verbatim>\<open>initialize\<close>. It records the new connectivity in
  \<^verbatim>\<open>isOnline\<close> and decides whether to call the service's \<^verbatim>\<open>syncAll\<close>; the second
  component says whether it did. The test in the source is \<^verbatim>\<open>!wasOffline && this.isOnline\<close>.
\<close>

definition networkListener :: "netinfo \<Rightarrow> cache_state \<Rightarrow> cache_state \<times> bool" where
  "networkListener state s =
     (let wasOffline = \<not> isOnline s;
          s' = s\<lparr>isOnline := online_of state\<rparr>
      in (s', \<not> wasOffline \<and> isOnline s'))"

section \<open>Offline sync queue (offlineSyncService)\<close>

subsection \<open>Queue entries and state\<close>

datatype sync_status = Pending | Syncing | Synced | Failed

text \<open>
  An entry of the \<^verbatim>\<open>@offline_farms\<close> array. \<open>farm_id\<close> is the source's \<^verbatim>\<open>id\<close>,
  \<open>farm_timestamp\<close> its \<^verbatim>\<open>timestamp\<close>; \<^verbatim>\<open>lastAttempt\<close> is absent until the first status
  update. Times are milliseconds of the clock rather than ISO strings.
\<close>

record offline_farm =
  farm_id :: string
  farmerId :: string
  farmData :: json
  farmer :: json
  farm_timestamp :: int
  status :: sync_status
  retryCount :: nat
  lastError :: "string option"
  lastAttempt :: "int option"

text \<open>
  The remote writer \<^verbatim>\<open>farmService.createFarm(farmerId, farmData)\<close> is an external
  collaborator: from a state \<open>'w\<close> of the remote side it either succeeds or rejects with an
  error message, and leaves the remote side in a new state.
\<close>

datatype write_outcome = Created | Refused string

type_synonym 'w createFarm = "'w \<Rightarrow> string \<Rightarrow> json \<Rightarrow> write_outcome \<times> 'w"

text \<open>
  Instrumentation of a run: when the writer is called and when its promise settles, and
  each \<^verbatim>\<open>setTimeout\<close> pause with its length in milliseconds.
\<close>

datatype event = WriterCalled string | WriterSettled string | Delay nat

text \<open>
  The state the sync service works on: the \<^verbatim>\<open>@offline_farms\<close> array (a missing key reads
  as the empty array), the \<^verbatim>\<open>@last_sync\<close> value, the clock, the remote side, and the
  event log. Storage operations are taken to succeed.
\<close>

record 'w sync_state =
  farms :: "offline_farm list"
  lastSync :: "int option"
  now :: int
  remote :: 'w
  trace :: "event list"

text \<open>\<^verbatim>\<open>netInfo.isConnected && netInfo.isInternetReachable\<close>, as a truth value.\<close>

definition connected_of :: "netinfo \<Rightarrow> bool" where
  "connected_of ni = (isConnected ni = Some True \<and> isInternetReachable ni = Some True)"

subsection \<open>Queue operations\<close>

text \<open>
  \<^verbatim>\<open>saveFarmOffline\<close>; the identifier built from the time and \<^verbatim>\<open>Math.random()\<close> is a
  parameter.
\<close>

definition saveFarmOffline ::
    "string \<Rightarrow> string \<Rightarrow> json \<Rightarrow> json \<Rightarrow> 'w sync_state \<Rightarrow> offline_farm \<times> 'w sync_state" where
  "saveFarmOffline offlineId fid fdata f s =
     (let offlineFarm =
            \<lparr>farm_id = offlineId, farmerId = fid, farmData = fdata, farmer = f,
             farm_timestamp = now s, status = Pending, retryCount = 0,
             lastError = None, lastAttempt = None\<rparr>
      in (offlineFarm, s\<lparr>farms := farms s @ [offlineFarm]\<rparr>))"

definition is_pending_or_failed :: "offline_farm \<Rightarrow> bool" where
  "is_pending_or_failed f = (status f = Pending \<or> status f = Failed)"

definition getPendingCount :: "'w sync_state \<Rightarrow> nat" where
  "getPendingCount s = length (filter is_pending_or_failed (farms s))"

definition updateFarmStatus ::
    "string \<Rightarrow> sync_status \<Rightarrow> string option \<Rightarrow> 'w sync_state \<Rightarrow> 'w sync_state" where
  "updateFarmStatus offlineId st err s =
     s\<lparr>farms :=
         map (\<lambda>farm.
                if farm_id farm = offlineId
                then farm\<lparr>status := st,
                          lastError := err,
                          retryCount := (if st = Failed then retryCount farm + 1
                                         else retryCount farm),
                          lastAttempt := Some (now s)\<rparr>
                else farm)
             (farms s)\<rparr>"

definition removeOfflineFarm :: "string \<Rightarrow> 'w sync_state \<Rightarrow> 'w sync_state" where
  "removeOfflineFarm offlineId s =
     s\<lparr>farms := filter (\<lambda>farm. farm_id farm \<noteq> offlineId) (farms s)\<rparr>"

subsection \<open>Replay\<close>

text \<open>\<^verbatim>\<open>{ success, farmId, error }\<close>, the value \<^verbatim>\<open>syncSingleFarm\<close> returns.\<close>

record single_result =
  success :: bool
  farmId :: string
  error :: "string option"

definition syncSingleFarm ::
    "'w createFarm \<Rightarrow> offline_farm \<Rightarrow> 'w sync_state \<Rightarrow> single_result \<times> 'w sync_state" where
  "syncSingleFarm createFarm offlineFarm s =
     (let s1 = updateFarmStatus (farm_id offlineFarm) Syncing None s in
      case createFarm (remote s1) (farmerId offlineFarm) (farmData offlineFarm) of
        (r, w) \<Rightarrow>
          (let s2 = s1\<lparr>remote := w,
                       trace := trace s1 @ [WriterCalled (farm_id offlineFarm),
                                            WriterSettled (farm_id offlineFarm)]\<rparr>
           in case r of
                Created \<Rightarrow>
                  (\<lparr>success = True, farmId = farm_id offlineFarm, error = None\<rparr>,
                   removeOfflineFarm (farm_id offlineFarm)
                     (updateFarmStatus (farm_id offlineFarm) Synced None s2))
              | Refused msg \<Rightarrow>
                  (\<lparr>success = False, farmId = farm_id offlineFarm, error = Some msg\<rparr>,
                   updateFarmStatus (farm_id offlineFarm) Failed (Some msg) s2)))"

text \<open>
  The body of the \<^verbatim>\<open>for\<close> loop of \<^verbatim>\<open>syncAllFarms\<close>: replay one entry, wait for it, then
  pause 500 ms, and only then go on to the next entry.
\<close>

fun sync_loop ::
    "'w createFarm \<Rightarrow> offline_farm list \<Rightarrow> 'w sync_state \<Rightarrow> single_result list \<times> 'w sync_state" where
  "sync_loop createFarm [] s = ([], s)"
| "sync_loop createFarm (farm # rest) s =
     (case syncSingleFarm createFarm farm s of
        (result, s1) \<Rightarrow>
          (case sync_loop createFarm rest
                  (s1\<lparr>now := now s1 + 500, trace := trace s1 @ [Delay 500]\<rparr>) of
             (results, s2) \<Rightarrow> (result # results, s2)))"

datatype sync_message = NoNetworkConnection | NoFarmsToSync | FarmsSynced nat

record sync_summary =
  any_synced :: bool
  message :: sync_message
  synced :: nat
  failed :: nat
  pending :: nat
  results :: "single_result list"

text \<open>The filter of \<^verbatim>\<open>syncAllFarms\<close>: pending or failed, with fewer than 5 failures.\<close>

definition selected :: "offline_farm \<Rightarrow> bool" where
  "selected f = ((status f = Pending \<or> status f = Failed) \<and> retryCount f < 5)"

text \<open>
  \<^verbatim>\<open>syncAllFarms\<close>; \<open>ni\<close> is what \<^verbatim>\<open>NetInfo.fetch()\<close> answers. \<open>any_synced\<close> is the
  \<^verbatim>\<open>success\<close> field of the summary.
\<close>

definition syncAllFarms ::
    "'w createFarm \<Rightarrow> netinfo \<Rightarrow> 'w sync_state \<Rightarrow> sync_summary \<times> 'w sync_state" where
  "syncAllFarms createFarm ni s =
     (if \<not> connected_of ni
      then (\<lparr>any_synced = False, message = NoNetworkConnection, synced = 0, failed = 0,
             pending = getPendingCount s, results = []\<rparr>, s)
      else
        (let pendingFarms = filter selected (farms s) in
         if length pendingFarms = 0
         then (\<lparr>any_synced = True, message = NoFarmsToSync, synced = 0, failed = 0,
                pending = 0, results = []\<rparr>, s)
         else
           (case sync_loop createFarm pendingFarms s of
              (rs, s1) \<Rightarrow>
                (let syncedCount = length (filter success rs);
                     failedCount = length (filter (\<lambda>r. \<not> success r) rs);
                     remainingPending = getPendingCount s1
                 in (\<lparr>any_synced = (syncedCount > 0), message = FarmsSynced syncedCount,
                      synced = syncedCount, failed = failedCount,
                      pending = remainingPending, results = rs\<rparr>,
                     s1\<lparr>lastSync := Some (now s1)\<rparr>)))))"

subsection \<open>Automatic and manual triggers\<close>

text \<open>
  The callback registered by \<^verbatim>\<open>setupNetworkListener\<close>, run to completion for one
  connectivity event. \<open>isFirstConnection\<close> is the closure variable (initially true),
  \<open>state\<close> the event, \<open>ni\<close> what \<^verbatim>\<open>NetInfo.fetch()\<close> answers inside \<^verbatim>\<open>syncAllFarms\<close>.
  The second component is the summary handed to \<^verbatim>\<open>onSync\<close>: it is present exactly when
  \<^verbatim>\<open>syncAllFarms\<close> was called.
\<close>

definition networkEvent ::
    "'w createFarm \<Rightarrow> netinfo \<Rightarrow> netinfo \<Rightarrow> bool \<times> 'w sync_state
       \<Rightarrow> (bool \<times> 'w sync_state) \<times> sync_summary option" where
  "networkEvent createFarm state ni l =
     (case l of
        (isFirstConnection, s) \<Rightarrow>
          if isFirstConnection then ((False, s), None)
          else if connected_of state then
            (if getPendingCount s > 0
             then (case syncAllFarms createFarm ni s of
                     (result, s1) \<Rightarrow> ((False, s1), Some result))
             else ((False, s), None))
          else ((False, s), None))"

text \<open>
  A sequence of connectivity events delivered to that callback, each handled before the
  next arrives, with \<^verbatim>\<open>NetInfo.fetch()\<close> answering what the event reported; the result
  lists, per event, whether \<^verbatim>\<open>syncAllFarms\<close> was called.
\<close>

fun networkEvents ::
    "'w createFarm \<Rightarrow> netinfo list \<Rightarrow> bool \<times> 'w sync_state \<Rightarrow> bool list" where
  "networkEvents createFarm [] l = []"
| "networkEvents createFarm (state # rest) l =
     (case networkEvent createFarm state state l of
        (l1, called) \<Rightarrow> (called \<noteq> None) # networkEvents createFarm rest l1)"

text \<open>\<^verbatim>\<open>farms.find(f => f.id === offlineId)\<close>: the first entry with that identifier.\<close>

definition farm_with :: "string \<Rightarrow> 'w sync_state \<Rightarrow> offline_farm option" where
  "farm_with offlineId s = find (\<lambda>f. farm_id f = offlineId) (farms s)"

text \<open>
  The three errors \<^verbatim>\<open>retryFailedFarm\<close> throws: \<^verbatim>\<open>'Farm not found'\<close>,
  \<^verbatim>\<open>'Farm is not in failed state'\<close> and \<^verbatim>\<open>'No network connection'\<close>.
\<close>

datatype retry_error = FarmNotFound | FarmNotInFailedState | NoNetwork

definition retryFailedFarm ::
    "'w createFarm \<Rightarrow> string \<Rightarrow> netinfo \<Rightarrow> 'w sync_state
       \<Rightarrow> (retry_error + single_result) \<times> 'w sync_state" where
  "retryFailedFarm createFarm offlineId ni s =
     (case farm_with offlineId s of
        None \<Rightarrow> (Inl FarmNotFound, s)
      | Some farm \<Rightarrow>
          if status farm \<noteq> Failed then (Inl FarmNotInFailedState, s)
          else if \<not> connected_of ni then (Inl NoNetwork, s)
          else (case syncSingleFarm createFarm farm s of
                  (r, s1) \<Rightarrow> (Inr r, s1)))"

text \<open>
  Repeated automatic passes, one \<^verbatim>\<open>syncAllFarms\<close> call per connectivity reading, as in
  the scenario that calls the batch replay several times in a row.
\<close>

fun replay_passes :: "'w createFarm \<Rightarrow> netinfo list \<Rightarrow> 'w sync_state \<Rightarrow> 'w sync_state" where
  "replay_passes createFarm [] s = s"
| "replay_passes createFarm (ni # nis) s =
     replay_passes createFarm nis (snd (syncAllFarms createFarm ni s))"

text \<open>
  A remote writer instrumented to record its invocations: next to the remote state it
  keeps the list of the arguments it has been called with, in the order of the calls.
\<close>

definition instrumented :: "'w createFarm \<Rightarrow> ('w \<times> (string \<times> json) list) createFarm" where
  "instrumented createFarm wl fid fdata =
     (case wl of
        (w, calls) \<Rightarrow>
          (case createFarm w fid fdata of
             (r, w1) \<Rightarrow> (r, (w1, calls @ [(fid, fdata)]))))"

section \<open>Concrete inputs\<close>

definition offline :: netinfo where
  "offline = \<lparr>isConnected = Some False, isInternetReachable = Some False\<rparr>"

definition online :: netinfo where
  "online = \<lparr>isConnected = Some True, isInternetReachable = Some True\<rparr>"

text \<open>A store whose only entry was written at time 0 with a ttl of 1000 ms.\<close>

definition farmers_at_0 :: "int \<Rightarrow> cache_state" where
  "farmers_at_0 t =
     \<lparr>storage = [''farmers'' \<mapsto> \<lparr>data = JArr [JNum 1], timestamp = 0, expiryMs = Some 1000\<rparr>],
      clock = t, isOnline = True\<rparr>"

definition empty_store :: cache_state where
  "empty_store = \<lparr>storage = Map.empty, clock = 0, isOnline = True\<rparr>"

text \<open>A store whose only entry holds the falsy payload \<open>0\<close>, written at time 0 without ttl.\<close>

definition count_at_0 :: "int \<Rightarrow> cache_state" where
  "count_at_0 t =
     \<lparr>storage = [''count'' \<mapsto> \<lparr>data = JNum 0, timestamp = 0, expiryMs = None\<rparr>],
      clock = t, isOnline = True\<rparr>"

text \<open>A store whose only entry was written at time 0 with a ttl of 0.\<close>

definition clusters_ttl_0 :: "int \<Rightarrow> cache_state" where
  "clusters_ttl_0 t =
     \<lparr>storage = [''clusters'' \<mapsto> \<lparr>data = JArr [JNum 3], timestamp = 0, expiryMs = Some 0\<rparr>],
      clock = t, isOnline = True\<rparr>"

text \<open>
  Remote fetches whose remote state is the number of times they have been invoked: one
  that rejects after 30 ms, one that resolves after 30 ms, one that resolves at once.
\<close>

definition timing_out :: "nat fetchFunction" where
  "timing_out n = ((Rejects ''timeout'', 30), Suc n)"

definition answering :: "nat fetchFunction" where
  "answering n = ((Resolves (JArr [JNum 2]), 30), Suc n)"


text \<open>A queue entry with identifier \<open>offline_1\<close> in a given status and retry count.\<close>

definition queued :: "sync_status \<Rightarrow> nat \<Rightarrow> offline_farm" where
  "queued st n =
     \<lparr>farm_id = ''offline_1'', farmerId = ''farmer_7'', farmData = JObj [], farmer = JNull,
      farm_timestamp = 0, status = st, retryCount = n, lastError = None, lastAttempt = None\<rparr>"

definition queue_of :: "offline_farm list \<Rightarrow> unit sync_state" where
  "queue_of fs = \<lparr>farms = fs, lastSync = None, now = 0, remote = (), trace = []\<rparr>"

text \<open>The same queue state with a remote side that carries an empty record of calls.\<close>

definition recording_queue_of :: "offline_farm list \<Rightarrow> (unit \<times> (string \<times> json) list) sync_state" where
  "recording_queue_of fs = \<lparr>farms = fs, lastSync = None, now = 0, remote = ((), []), trace = []\<rparr>"

definition refusing :: "unit createFarm" where
  "refusing w fid d = (Refused ''server error'', w)"

definition accepting :: "unit createFarm" where
  "accepting w fid d = (Created, w)"

section \<open>Properties of the cache service\<close>

subsection \<open>Facts about expiry and getCache\<close>

lemma expired_mono: "expired m a \<Longrightarrow> a \<le> b \<Longrightarrow> expired m b"
  by (cases m) auto

lemma expired_js_or: "expired (js_or a b) age \<Longrightarrow> expired a age \<or> expired b age"
  by (auto simp: js_or_def split: if_splits)

lemma fetchWithCache_clock: "clock s \<le> clock (after (fetchWithCache key f e force ni w s))"
  by (auto simp: fetchWithCache_def refreshInBackground_def checkOnline_def getCache_def
                 setCache_def Let_def
           split: option.splits prod.splits fetch_outcome.splits)

subsection \<open>Reading while offline\<close>

text \<open>
  C1 as stated, refuted. The claim says that offline the cached value is returned whether
  fresh or expired. An entry written at time 0 with a ttl of 1000 ms is in the store; at
  time 5000 an offline \<^verbatim>\<open>fetchWithCache\<close> fails with \<open>NoCachedData\<close>.
\<close>

theorem fetchWithCache_offline_counterexample:
  "storage (farmers_at_0 5000) ''farmers'' \<noteq> None
   \<and> outcome (fetchWithCache ''farmers'' answering (Some 1000) False offline 0 (farmers_at_0 5000))
       = Inl NoCachedData"
  by (simp add: fetchWithCache_def getCache_def checkOnline_def online_of_def offline_def
        farmers_at_0_def js_or_def)

text \<open>
  C1, amended. While the connectivity check reports offline, \<^verbatim>\<open>fetchWithCache\<close> never
  invokes the remote fetch (the remote side is left as it was) and starts no background
  refresh. It returns the cached value exactly when an entry is stored for the key, the
  entry is not expired with respect to \<^verbatim>\<open>expiryMs || cached.expiryMs\<close>, and its payload is
  truthy. In every other case it fails with \<open>NoCachedData\<close>: when no entry is stored, when
  the stored entry is expired (the entry is then removed from the store), and when the
  payload is falsy.
\<close>

theorem fetchWithCache_offline:
  assumes "\<not> online_of ni"
  shows "world (fetchWithCache key f e force ni w s) = w
       \<and> \<not> background (fetchWithCache key f e force ni w s)
       \<and> (storage s key = None \<longrightarrow>
            outcome (fetchWithCache key f e force ni w s) = Inl NoCachedData
            \<and> storage (after (fetchWithCache key f e force ni w s)) = storage s)
       \<and> (\<forall>c. storage s key = Some c \<longrightarrow>
            (if expired (js_or e (expiryMs c)) (clock s - timestamp c)
             then outcome (fetchWithCache key f e force ni w s) = Inl NoCachedData
                  \<and> storage (after (fetchWithCache key f e force ni w s)) key = None
             else storage (after (fetchWithCache key f e force ni w s)) = storage s
                  \<and> (if truthy (data c)
                      then outcome (fetchWithCache key f e force ni w s) = Inr (data c)
                      else outcome (fetchWithCache key f e force ni w s) = Inl NoCachedData)))"
  using assms
  by (auto simp: fetchWithCache_def checkOnline_def getCache_def Let_def split: option.splits)

theorem fetchWithCache_offline_witness:
  "\<not> online_of offline
   \<and> outcome (fetchWithCache ''farmers'' answering (Some 1000) False offline 0 (farmers_at_0 400))
       = Inr (JArr [JNum 1])
   \<and> world (fetchWithCache ''farmers'' answering (Some 1000) False offline 0 (farmers_at_0 400))
       = 0
   \<and> outcome (fetchWithCache ''farmers'' answering (Some 1000) False offline 0 empty_store)
       = Inl NoCachedData
   \<and> outcome (fetchWithCache ''count'' answering (Some 1000) False offline 0 (count_at_0 400))
       = Inl NoCachedData"
  using fetchWithCache_offline [where ni = offline and s = "farmers_at_0 400" and key = "''farmers''"
          and f = answering and e = "Some 1000" and force = False and w = 0]
        fetchWithCache_offline [where ni = offline and s = empty_store and key = "''farmers''"
          and f = answering and e = "Some 1000" and force = False and w = 0]
        fetchWithCache_offline [where ni = offline and s = "count_at_0 400" and key = "''count''"
          and f = answering and e = "Some 1000" and force = False and w = 0]
  by (simp add: online_of_def offline_def farmers_at_0_def empty_store_def count_at_0_def
        js_or_def)

subsection \<open>Fallback after a rejected fetch\<close>

text \<open>
  C2, evaluated at the failing input. The store holds an entry for the key, written at
  time 0 with a ttl of 1000 ms; at time 5000, online, the remote fetch rejects. The claim
  says the cached value is returned. With \<^verbatim>\<open>forceRefresh\<close> true the fallback read
  \<^verbatim>\<open>getCache(cacheKey, null)\<close> still applies the stored ttl and finds the entry expired;
  with \<^verbatim>\<open>forceRefresh\<close> false the first read has already removed it. Either way the
  rejection is propagated.
\<close>

theorem fetchWithCache_rejected_expired_fallback:
  "storage (farmers_at_0 5000) ''farmers'' \<noteq> None
   \<and> online_of online
   \<and> outcome (fetchWithCache ''farmers'' timing_out (Some 1000) True online 0 (farmers_at_0 5000))
       = Inl (FetchError ''timeout'')
   \<and> outcome (fetchWithCache ''farmers'' timing_out (Some 1000) False online 0 (farmers_at_0 5000))
       = Inl (FetchError ''timeout'')"
  by (simp add: fetchWithCache_def getCache_def checkOnline_def online_of_def online_def
        farmers_at_0_def js_or_def timing_out_def)

subsection \<open>What a call may remove\<close>

text \<open>
  C5 as stated, refuted. The claim says that every entry present before a call is still
  present after it. The store holds an entry written at time 0 with a ttl of 1000 ms. An
  offline call at time 90000 reads it with \<^verbatim>\<open>getCache(cacheKey, expiryMs)\<close>, finds it
  expired, and removes it from the store.
\<close>

theorem fetchWithCache_deletes_counterexample:
  "storage (farmers_at_0 90000) ''farmers'' \<noteq> None
   \<and> storage (after (fetchWithCache ''farmers'' answering None False offline 0
                      (farmers_at_0 90000))) ''farmers'' = None"
  by (simp add: fetchWithCache_def getCache_def checkOnline_def online_of_def offline_def
        farmers_at_0_def js_or_def)

text \<open>
  C5, amended. A \<^verbatim>\<open>fetchWithCache\<close> call, whatever the connectivity and the outcome,
  leaves the entries under all other keys exactly as they were. The entry under its own
  key is still present after the call (possibly overwritten) provided it is not expired
  when the call ends, neither with respect to the \<^verbatim>\<open>expiryMs\<close> argument nor with respect
  to its stored ttl. The read \<^verbatim>\<open>getCache(cacheKey, expiryMs)\<close> removes an entry it finds
  expired: an offline call on an entry that is expired with respect to
  \<^verbatim>\<open>expiryMs || cached.expiryMs\<close> leaves no entry under the key.
\<close>

theorem fetchWithCache_frame:
  "(\<forall>k. k \<noteq> key \<longrightarrow> storage (after (fetchWithCache key f e force ni w s)) k = storage s k)
   \<and> (\<forall>c. storage s key = Some c
          \<and> \<not> expired e (clock (after (fetchWithCache key f e force ni w s)) - timestamp c)
          \<and> \<not> expired (expiryMs c)
                (clock (after (fetchWithCache key f e force ni w s)) - timestamp c)
        \<longrightarrow> storage (after (fetchWithCache key f e force ni w s)) key \<noteq> None)
   \<and> (\<forall>c. storage s key = Some c \<and> \<not> online_of ni
          \<and> expired (js_or e (expiryMs c)) (clock s - timestamp c)
        \<longrightarrow> storage (after (fetchWithCache key f e force ni w s)) key = None)"
proof -
  let ?r = "fetchWithCache key f e force ni w s"
  have other: "\<forall>k. k \<noteq> key \<longrightarrow> storage (after ?r) k = storage s k"
    by (auto simp: fetchWithCache_def refreshInBackground_def checkOnline_def getCache_def
                   setCache_def Let_def
             split: option.splits prod.splits fetch_outcome.splits)
  have kept: "\<forall>c. storage s key = Some c
          \<and> \<not> expired e (clock (after ?r) - timestamp c)
          \<and> \<not> expired (expiryMs c) (clock (after ?r) - timestamp c)
        \<longrightarrow> storage (after ?r) key \<noteq> None"
  proof (intro allI impI)
    fix c
    assume a: "storage s key = Some c
                \<and> \<not> expired e (clock (after ?r) - timestamp c)
                \<and> \<not> expired (expiryMs c) (clock (after ?r) - timestamp c)"
    have mono: "clock s \<le> clock (after ?r)" by (rule fetchWithCache_clock)
    have e0: "\<not> expired (js_or e (expiryMs c)) (clock s - timestamp c)"
      using a mono expired_mono [of _ "clock s - timestamp c" "clock (after ?r) - timestamp c"]
      by (auto dest!: expired_js_or)
    have g0: "\<And>x. getCache key e (s\<lparr>isOnline := x\<rparr>) = (data c, s\<lparr>isOnline := x\<rparr>)"
      using a e0 by (simp add: getCache_def)
    show "storage (after ?r) key \<noteq> None"
      using a g0
      by (auto simp: fetchWithCache_def refreshInBackground_def checkOnline_def setCache_def
                     Let_def getCache_def js_or_def
               split: prod.splits fetch_outcome.splits if_splits)
  qed
  have removed: "\<forall>c. storage s key = Some c \<and> \<not> online_of ni
          \<and> expired (js_or e (expiryMs c)) (clock s - timestamp c)
        \<longrightarrow> storage (after ?r) key = None"
    by (auto simp: fetchWithCache_def checkOnline_def getCache_def Let_def)
  show ?thesis by (rule conjI [OF other conjI [OF kept removed]])
qed

theorem fetchWithCache_frame_witness:
  "storage (farmers_at_0 400) ''farmers'' \<noteq> None
   \<and> storage (after (fetchWithCache ''farmers'' timing_out (Some 1000) True online 0
                      (farmers_at_0 400))) ''farmers'' \<noteq> None
   \<and> storage (after (fetchWithCache ''clusters'' answering (Some 1000) True online 0
                      (farmers_at_0 400))) ''farmers''
       = storage (farmers_at_0 400) ''farmers''
   \<and> storage (after (fetchWithCache ''farmers'' answering (Some 1000) False offline 0
                      (farmers_at_0 5000))) ''farmers'' = None"
  using fetchWithCache_frame [where key = "''farmers''" and f = timing_out and e = "Some 1000"
          and force = True and ni = online and s = "farmers_at_0 400" and w = 0]
        fetchWithCache_frame [where key = "''clusters''" and f = answering and e = "Some 1000"
          and force = True and ni = online and s = "farmers_at_0 400" and w = 0]
        fetchWithCache_frame [where key = "''farmers''" and f = answering and e = "Some 1000"
          and force = False and ni = offline and s = "farmers_at_0 5000" and w = 0]
  by (simp add: fetchWithCache_def getCache_def checkOnline_def online_of_def online_def
        offline_def farmers_at_0_def js_or_def timing_out_def)

subsection \<open>Reading a fresh entry while online\<close>




subsection \<open>The expiry override of getCache\<close>

text \<open>
  C9 as stated, refuted. The claim says that expiry checking cannot be turned off for any
  entry stored with a ttl. An entry stored with a ttl of 0 is read with a \<^verbatim>\<open>null\<close>
  override a million seconds later: \<^verbatim>\<open>null || 0\<close> is \<open>0\<close>, no expiry check is made, and
  the entry is returned and kept.
\<close>

theorem getCache_ttl_0_counterexample:
  "storage (clusters_ttl_0 1000000000) ''clusters''
       = Some \<lparr>data = JArr [JNum 3], timestamp = 0, expiryMs = Some 0\<rparr>
   \<and> getCache ''clusters'' None (clusters_ttl_0 1000000000)
       = (JArr [JNum 3], clusters_ttl_0 1000000000)"
  by (simp add: getCache_def clusters_ttl_0_def js_or_def)

text \<open>
  C9, amended. For an entry stored with a ttl \<open>t\<close>, \<^verbatim>\<open>getCache(key, override)\<close> checks expiry
  against \<^verbatim>\<open>override || t\<close>: a truthy (non-zero) override replaces the stored ttl, while
  \<^verbatim>\<open>null\<close> and \<^verbatim>\<open>0\<close> fall back to \<open>t\<close>. The entry is dropped (with \<^verbatim>\<open>null\<close> returned) when
  that number is non-zero and the age exceeds it, and is returned otherwise. When \<open>t\<close> is
  non-zero that number is non-zero whatever the override, so the expiry check cannot be
  turned off; when \<open>t\<close> is 0 and the override is \<^verbatim>\<open>null\<close> or \<^verbatim>\<open>0\<close>, no check is made and
  the entry is returned at any age.
\<close>

theorem getCache_override_falls_back_to_stored_ttl:
  assumes "storage s key = Some c" and "expiryMs c = Some t"
  shows "\<exists>m. m = (case override of None \<Rightarrow> t | Some v \<Rightarrow> if v = 0 then t else v)
            \<and> (t \<noteq> 0 \<longrightarrow> m \<noteq> 0)
            \<and> (m = 0) = (t = 0 \<and> (override = None \<or> override = Some 0))
            \<and> getCache key override s =
                (if m \<noteq> 0 \<and> clock s - timestamp c > m
                 then (JNull, s\<lparr>storage := (storage s)(key := None)\<rparr>)
                 else (data c, s))"
proof (cases override)
  case None
  with assms show ?thesis by (simp add: getCache_def js_or_def)
next
  case (Some v)
  with assms show ?thesis by (cases "v = 0") (simp_all add: getCache_def js_or_def)
qed

theorem getCache_override_falls_back_to_stored_ttl_witness:
  "getCache ''farmers'' None (farmers_at_0 5000)
     = (JNull, (farmers_at_0 5000)\<lparr>storage := (storage (farmers_at_0 5000))(''farmers'' := None)\<rparr>)
   \<and> getCache ''farmers'' (Some 0) (farmers_at_0 5000)
     = (JNull, (farmers_at_0 5000)\<lparr>storage := (storage (farmers_at_0 5000))(''farmers'' := None)\<rparr>)
   \<and> getCache ''farmers'' (Some 9000) (farmers_at_0 5000) = (JArr [JNum 1], farmers_at_0 5000)
   \<and> getCache ''clusters'' (Some 0) (clusters_ttl_0 5000) = (JArr [JNum 3], clusters_ttl_0 5000)"
proof -
  have f: "storage (farmers_at_0 5000) ''farmers''
             = Some \<lparr>data = JArr [JNum 1], timestamp = 0, expiryMs = Some 1000\<rparr>"
    and c: "storage (clusters_ttl_0 5000) ''clusters''
             = Some \<lparr>data = JArr [JNum 3], timestamp = 0, expiryMs = Some 0\<rparr>"
    and t: "clock (farmers_at_0 5000) = 5000" "clock (clusters_ttl_0 5000) = 5000"
    by (simp_all add: farmers_at_0_def clusters_ttl_0_def)
  show ?thesis
    using
      getCache_override_falls_back_to_stored_ttl
        [where s = "farmers_at_0 5000" and key = "''farmers''" and t = 1000 and override = None
           and c = "\<lparr>data = JArr [JNum 1], timestamp = 0, expiryMs = Some 1000\<rparr>"]
      getCache_override_falls_back_to_stored_ttl
        [where s = "farmers_at_0 5000" and key = "''farmers''" and t = 1000
           and override = "Some 0"
           and c = "\<lparr>data = JArr [JNum 1], timestamp = 0, expiryMs = Some 1000\<rparr>"]
      getCache_override_falls_back_to_stored_ttl
        [where s = "farmers_at_0 5000" and key = "''farmers''" and t = 1000
           and override = "Some 9000"
           and c = "\<lparr>data = JArr [JNum 1], timestamp = 0, expiryMs = Some 1000\<rparr>"]
      getCache_override_falls_back_to_stored_ttl
        [where s = "clusters_ttl_0 5000" and key = "''clusters''" and t = 0
           and override = "Some 0"
           and c = "\<lparr>data = JArr [JNum 3], timestamp = 0, expiryMs = Some 0\<rparr>"]
      f c t
    by simp
qed

section \<open>Properties of the sync queue\<close>

subsection \<open>Fields a queue update leaves alone\<close>

lemma updateFarmStatus_fields [simp]:
  "remote (updateFarmStatus j st err s) = remote s"
  "now (updateFarmStatus j st err s) = now s"
  "trace (updateFarmStatus j st err s) = trace s"
  by (simp_all add: updateFarmStatus_def)

lemma removeOfflineFarm_fields [simp]:
  "remote (removeOfflineFarm j s) = remote s"
  "now (removeOfflineFarm j s) = now s"
  "trace (removeOfflineFarm j s) = trace s"
  by (simp_all add: removeOfflineFarm_def)

subsection \<open>Sequential replay\<close>

lemma syncSingleFarm_trace:
  "trace (snd (syncSingleFarm cf g s)) =
     trace s @ [WriterCalled (farm_id g), WriterSettled (farm_id g)]"
  by (simp add: syncSingleFarm_def Let_def split: prod.splits write_outcome.splits)

lemma syncSingleFarm_remote:
  "remote (snd (syncSingleFarm cf g s)) = snd (cf (remote s) (farmerId g) (farmData g))"
  by (simp add: syncSingleFarm_def Let_def split: prod.splits write_outcome.splits)

lemma syncSingleFarm_now: "now (snd (syncSingleFarm cf g s)) = now s"
  by (simp add: syncSingleFarm_def Let_def split: prod.splits write_outcome.splits)

lemma syncSingleFarm_farmId: "farmId (fst (syncSingleFarm cf g s)) = farm_id g"
  by (simp add: syncSingleFarm_def Let_def split: prod.splits write_outcome.splits)

text \<open>
  What one run of the loop does to the remote side, the clock and the event log, and the
  entries its results stand for.
\<close>

lemma sync_loop_effects:
  "remote (snd (sync_loop cf gs s))
     = foldl (\<lambda>w f. snd (cf w (farmerId f) (farmData f))) (remote s) gs
   \<and> now (snd (sync_loop cf gs s)) = now s + 500 * int (length gs)
   \<and> trace (snd (sync_loop cf gs s))
       = trace s @ concat (map (\<lambda>f. [WriterCalled (farm_id f), WriterSettled (farm_id f),
                                       Delay 500]) gs)
   \<and> map farmId (fst (sync_loop cf gs s)) = map farm_id gs"
proof (induction gs arbitrary: s)
  case Nil
  show ?case by simp
next
  case (Cons g gs)
  obtain r s1 where a: "syncSingleFarm cf g s = (r, s1)" by (cases "syncSingleFarm cf g s")
  let ?s' = "s1\<lparr>now := now s1 + 500, trace := trace s1 @ [Delay 500]\<rparr>"
  obtain rs s2 where b: "sync_loop cf gs ?s' = (rs, s2)" by (cases "sync_loop cf gs ?s'")
  have one: "remote s1 = snd (cf (remote s) (farmerId g) (farmData g))"
      "now s1 = now s"
      "trace s1 = trace s @ [WriterCalled (farm_id g), WriterSettled (farm_id g)]"
      "farmId r = farm_id g"
    using a syncSingleFarm_remote [of cf g s] syncSingleFarm_now [of cf g s]
          syncSingleFarm_trace [of cf g s] syncSingleFarm_farmId [of cf g s]
    by simp_all
  show ?case using a b one Cons.IH [of ?s'] by simp
qed

lemma instrumented_calls:
  "snd (foldl (\<lambda>wl f. snd (instrumented cf wl (farmerId f) (farmData f))) (w, calls) gs)
     = calls @ map (\<lambda>f. (farmerId f, farmData f)) gs"
proof (induction gs arbitrary: w calls)
  case Nil
  show ?case by simp
next
  case (Cons g gs)
  obtain r w1 where c: "cf w (farmerId g) (farmData g) = (r, w1)"
    by (cases "cf w (farmerId g) (farmData g)")
  then have "snd (instrumented cf (w, calls) (farmerId g) (farmData g))
               = (w1, calls @ [(farmerId g, farmData g)])"
    by (simp add: instrumented_def)
  then show ?case using Cons.IH [of w1 "calls @ [(farmerId g, farmData g)]"] by simp
qed

lemma syncAllFarms_effects:
  assumes "connected_of ni"
  shows "remote (snd (syncAllFarms cf ni s))
           = foldl (\<lambda>w f. snd (cf w (farmerId f) (farmData f))) (remote s)
               (filter selected (farms s))
       \<and> now (snd (syncAllFarms cf ni s))
           = now s + 500 * int (length (filter selected (farms s)))
       \<and> trace (snd (syncAllFarms cf ni s))
           = trace s @ concat (map (\<lambda>f. [WriterCalled (farm_id f), WriterSettled (farm_id f),
                                           Delay 500])
                                 (filter selected (farms s)))
       \<and> map farmId (results (fst (syncAllFarms cf ni s)))
           = map farm_id (filter selected (farms s))"
proof (cases "filter selected (farms s) = []")
  case True
  with assms show ?thesis by (simp add: syncAllFarms_def)
next
  case False
  obtain rs s1 where a: "sync_loop cf (filter selected (farms s)) s = (rs, s1)"
    by (cases "sync_loop cf (filter selected (farms s)) s")
  show ?thesis
    using assms False a sync_loop_effects [of cf "filter selected (farms s)" s]
    by (simp add: syncAllFarms_def Let_def)
qed

text \<open>
  C7. When \<^verbatim>\<open>syncAllFarms\<close> runs with a connection, the remote side ends in the state
  reached by applying the remote writer to the selected entries (pending or failed, fewer
  than 5 failures) one after the other in queue order, each call starting from the state
  the previous call left. A writer instrumented to record its calls has recorded, after the
  run, exactly one call per selected entry, with that entry's arguments, in queue order.
  The clock has advanced by 500 ms per selected entry, and the event log shows, for each
  selected entry in turn, the call of the writer, its settling, and then the 500 ms
  pause: each invocation has settled before the pause that precedes the next one begins.
  The results are reported in the same order.
\<close>

theorem syncAllFarms_sequential:
  assumes "connected_of ni"
  shows "remote (snd (syncAllFarms cf ni s))
           = foldl (\<lambda>w f. snd (cf w (farmerId f) (farmData f))) (remote s)
               (filter selected (farms s))
       \<and> snd (remote (snd (syncAllFarms (instrumented cf) ni sr)))
           = snd (remote sr) @ map (\<lambda>f. (farmerId f, farmData f)) (filter selected (farms sr))
       \<and> now (snd (syncAllFarms cf ni s))
           = now s + 500 * int (length (filter selected (farms s)))
       \<and> trace (snd (syncAllFarms cf ni s))
           = trace s @ concat (map (\<lambda>f. [WriterCalled (farm_id f), WriterSettled (farm_id f),
                                           Delay 500])
                                 (filter selected (farms s)))
       \<and> map farmId (results (fst (syncAllFarms cf ni s)))
           = map farm_id (filter selected (farms s))"
proof -
  obtain w calls where r: "remote sr = (w, calls)" by (cases "remote sr")
  have "snd (remote (snd (syncAllFarms (instrumented cf) ni sr)))
          = snd (foldl (\<lambda>wl f. snd (instrumented cf wl (farmerId f) (farmData f))) (w, calls)
                   (filter selected (farms sr)))"
    using syncAllFarms_effects [OF assms, of "instrumented cf" sr] r by simp
  then have "snd (remote (snd (syncAllFarms (instrumented cf) ni sr)))
          = snd (remote sr) @ map (\<lambda>f. (farmerId f, farmData f)) (filter selected (farms sr))"
    using r by (simp add: instrumented_calls)
  then show ?thesis using syncAllFarms_effects [OF assms, of cf s] by simp
qed

theorem syncAllFarms_sequential_witness:
  "connected_of online
   \<and> snd (remote (snd (syncAllFarms (instrumented refusing) online
        (recording_queue_of [queued Pending 0,
                   (queued Failed 5)\<lparr>farm_id := ''offline_2'', farmerId := ''farmer_8''\<rparr>,
                   (queued Failed 2)\<lparr>farm_id := ''offline_3'', farmerId := ''farmer_9''\<rparr>]))))
       = [(''farmer_7'', JObj []), (''farmer_9'', JObj [])]
   \<and> now (snd (syncAllFarms refusing online
        (queue_of [queued Pending 0,
                   (queued Failed 5)\<lparr>farm_id := ''offline_2'', farmerId := ''farmer_8''\<rparr>,
                   (queued Failed 2)\<lparr>farm_id := ''offline_3'', farmerId := ''farmer_9''\<rparr>])))
       = 1000
   \<and> trace (snd (syncAllFarms refusing online
        (queue_of [queued Pending 0,
                   (queued Failed 5)\<lparr>farm_id := ''offline_2'', farmerId := ''farmer_8''\<rparr>,
                   (queued Failed 2)\<lparr>farm_id := ''offline_3'', farmerId := ''farmer_9''\<rparr>])))
       = [WriterCalled ''offline_1'', WriterSettled ''offline_1'', Delay 500,
          WriterCalled ''offline_3'', WriterSettled ''offline_3'', Delay 500]"
  using syncAllFarms_sequential [where ni = online and cf = refusing
          and s = "queue_of [queued Pending 0,
                     (queued Failed 5)\<lparr>farm_id := ''offline_2'', farmerId := ''farmer_8''\<rparr>,
                     (queued Failed 2)\<lparr>farm_id := ''offline_3'', farmerId := ''farmer_9''\<rparr>]"
          and sr = "recording_queue_of [queued Pending 0,
                     (queued Failed 5)\<lparr>farm_id := ''offline_2'', farmerId := ''farmer_8''\<rparr>,
                     (queued Failed 2)\<lparr>farm_id := ''offline_3'', farmerId := ''farmer_9''\<rparr>]"]
  by (simp add: connected_of_def online_def queue_of_def recording_queue_of_def queued_def
        selected_def)

subsection \<open>The pending count\<close>

text \<open>
  C8 as stated, refuted. The claim says that \<^verbatim>\<open>getPendingCount\<close> counts every entry that
  is not yet synced, those in flight included. A queue holding one entry whose status is
  \<^verbatim>\<open>'syncing'\<close> has one entry that is not synced, and a pending count of 0.
\<close>

theorem getPendingCount_counterexample:
  "getPendingCount (queue_of [queued Syncing 0]) = 0
   \<and> length (filter (\<lambda>f. status f \<noteq> Synced) (farms (queue_of [queued Syncing 0]))) = 1"
  by (simp add: getPendingCount_def queue_of_def queued_def is_pending_or_failed_def)

text \<open>
  C8, amended. \<^verbatim>\<open>getPendingCount\<close> counts the entries whose status is \<^verbatim>\<open>'pending'\<close> or
  \<^verbatim>\<open>'failed'\<close>; entries in flight (\<^verbatim>\<open>'syncing'\<close>) are not counted. The count therefore
  falls short of the number of entries not yet synced by exactly the number of entries in
  flight.
\<close>

theorem getPendingCount_counts:
  "getPendingCount s + length (filter (\<lambda>f. status f = Syncing) (farms s))
     = length (filter (\<lambda>f. status f \<noteq> Synced) (farms s))"
proof -
  have "length (filter is_pending_or_failed fs) + length (filter (\<lambda>f. status f = Syncing) fs)
          = length (filter (\<lambda>f. status f \<noteq> Synced) fs)" for fs :: "offline_farm list"
  proof (induction fs)
    case Nil
    show ?case by simp
  next
    case (Cons f fs)
    then show ?case by (cases "status f") (simp_all add: is_pending_or_failed_def)
  qed
  then show ?thesis by (simp add: getPendingCount_def)
qed

subsection \<open>The automatic trigger\<close>

text \<open>
  C3 as stated, refuted. The claim says the replay is invoked exactly on a transition from
  offline to online. With one pending entry, two events that both report a connection
  make the listener of the sync service call \<^verbatim>\<open>syncAllFarms\<close> on the second one, although
  the previous observation was online already; and with an empty queue a change from
  offline to online calls nothing.
\<close>

theorem networkEvents_counterexample:
  "networkEvents refusing [online, online] (True, queue_of [queued Pending 0]) = [False, True]
   \<and> networkEvents refusing [offline, offline, online] (True, queue_of []) = [False, False, False]"
  by (simp add: networkEvent_def connected_of_def online_def offline_def getPendingCount_def
        queue_of_def queued_def is_pending_or_failed_def split: prod.splits)

lemma networkEvents_later:
  "k < length evs \<Longrightarrow> networkEvents cf evs (False, s) ! k \<Longrightarrow> connected_of (evs ! k)"
proof (induction evs arbitrary: s k)
  case Nil
  then show ?case by simp
next
  case (Cons ev evs)
  obtain l1 called where a: "networkEvent cf ev ev (False, s) = (l1, called)"
    by (cases "networkEvent cf ev ev (False, s)")
  then have first: "fst l1 = False"
    by (auto simp: networkEvent_def split: if_splits prod.splits)
  show ?case
  proof (cases k)
    case 0
    with Cons.prems a show ?thesis
      by (auto simp: networkEvent_def split: if_splits prod.splits)
  next
    case (Suc j)
    have "networkEvents cf evs (False, snd l1) ! j"
      using Cons.prems a Suc first by (cases l1) simp
    moreover have "j < length evs" using Cons.prems Suc by simp
    ultimately have "connected_of (evs ! j)" by (rule Cons.IH [rotated])
    then show ?thesis using Suc by simp
  qed
qed

text \<open>
  C3, amended. The listener registered by \<^verbatim>\<open>setupNetworkListener\<close> ignores the first
  connectivity event it receives. On every later event it calls \<^verbatim>\<open>syncAllFarms\<close>, and
  hands the summary to \<^verbatim>\<open>onSync\<close>, exactly when the event reports a connection with
  reachable internet and \<^verbatim>\<open>getPendingCount()\<close> is positive, whatever the previous event
  reported; otherwise the queue is left as it is. Hence, over any sequence of events, a
  call is never made on the first event and only ever on an event that reports a
  connection.
\<close>

theorem networkEvent_trigger:
  "snd (networkEvent cf state ni (isFirst, s))
     = (if \<not> isFirst \<and> connected_of state \<and> 0 < getPendingCount s
        then Some (fst (syncAllFarms cf ni s)) else None)
   \<and> fst (networkEvent cf state ni (isFirst, s))
     = (False, if \<not> isFirst \<and> connected_of state \<and> 0 < getPendingCount s
               then snd (syncAllFarms cf ni s) else s)
   \<and> networkEvents cf (state # rest) (True, s) = False # networkEvents cf rest (False, s)
   \<and> (\<forall>k. k < length (state # rest) \<and> networkEvents cf (state # rest) (True, s) ! k
          \<longrightarrow> 0 < k \<and> connected_of ((state # rest) ! k))"
proof -
  have a: "snd (networkEvent cf state ni (isFirst, s))
          = (if \<not> isFirst \<and> connected_of state \<and> 0 < getPendingCount s
             then Some (fst (syncAllFarms cf ni s)) else None)"
    by (simp add: networkEvent_def split: prod.splits)
  have b: "fst (networkEvent cf state ni (isFirst, s))
          = (False, if \<not> isFirst \<and> connected_of state \<and> 0 < getPendingCount s
                    then snd (syncAllFarms cf ni s) else s)"
    by (simp add: networkEvent_def split: prod.splits)
  have seq: "networkEvents cf (state # rest) (True, s) = False # networkEvents cf rest (False, s)"
    by (simp add: networkEvent_def)
  have d: "\<forall>k. k < length (state # rest) \<and> networkEvents cf (state # rest) (True, s) ! k
          \<longrightarrow> 0 < k \<and> connected_of ((state # rest) ! k)"
  proof (intro allI impI)
    fix k
    assume k: "k < length (state # rest) \<and> networkEvents cf (state # rest) (True, s) ! k"
    then obtain j where j: "k = Suc j" using seq by (cases k) auto
    then have "j < length rest" and "networkEvents cf rest (False, s) ! j"
      using k seq by simp_all
    then have "connected_of (rest ! j)" by (rule networkEvents_later)
    then show "0 < k \<and> connected_of ((state # rest) ! k)" using j by simp
  qed
  show ?thesis by (rule conjI [OF a conjI [OF b conjI [OF seq d]]])
qed

theorem networkEvent_trigger_witness:
  "snd (networkEvent refusing online online (True, queue_of [queued Pending 0])) = None
   \<and> snd (networkEvent refusing online online (False, queue_of [queued Pending 0])) \<noteq> None
   \<and> snd (networkEvent refusing online online (False, queue_of [])) = None
   \<and> snd (networkEvent refusing offline online (False, queue_of [queued Pending 0])) = None"
proof -
  have on: "connected_of online" and off: "\<not> connected_of offline"
    by (simp_all add: connected_of_def online_def offline_def)
  have one: "getPendingCount (queue_of [queued Pending 0]) = 1"
    and none: "getPendingCount (queue_of []) = 0"
    by (simp_all add: getPendingCount_def queue_of_def queued_def is_pending_or_failed_def)
  show ?thesis
    using networkEvent_trigger [where cf = refusing and state = online and ni = online
            and isFirst = True and s = "queue_of [queued Pending 0]" and rest = "[]"]
          networkEvent_trigger [where cf = refusing and state = online and ni = online
            and isFirst = False and s = "queue_of [queued Pending 0]" and rest = "[]"]
          networkEvent_trigger [where cf = refusing and state = online and ni = online
            and isFirst = False and s = "queue_of []" and rest = "[]"]
          networkEvent_trigger [where cf = refusing and state = offline and ni = online
            and isFirst = False and s = "queue_of [queued Pending 0]" and rest = "[]"]
          on off one none
    by simp
qed

text \<open>
  The listener of the cache service tests \<^verbatim>\<open>!wasOffline && this.isOnline\<close>: it calls the
  cache service's \<^verbatim>\<open>syncAll\<close> when the service was online before the event and still is,
  the first event after start included, and not when the service comes back from offline.
\<close>

lemma networkListener_fires_while_online:
  "snd (networkListener online empty_store)
   \<and> \<not> snd (networkListener online (empty_store\<lparr>isOnline := False\<rparr>))"
  by (simp add: networkListener_def online_def online_of_def empty_store_def)

subsection \<open>Looking up an entry after queue updates\<close>

lemma farm_with_updateFarmStatus:
  "farm_with i (updateFarmStatus j st err s) =
     (if i = j
      then map_option (\<lambda>farm. farm\<lparr>status := st, lastError := err,
                                    retryCount := (if st = Failed then retryCount farm + 1
                                                   else retryCount farm),
                                    lastAttempt := Some (now s)\<rparr>) (farm_with i s)
      else farm_with i s)"
proof -
  have aux: "find (\<lambda>f. farm_id f = i)
          (map (\<lambda>farm. if farm_id farm = j
                        then farm\<lparr>status := st, lastError := err,
                                  retryCount := (if st = Failed then retryCount farm + 1
                                                 else retryCount farm),
                                  lastAttempt := Some t\<rparr>
                        else farm) fs)
        = (if i = j
           then map_option (\<lambda>farm. farm\<lparr>status := st, lastError := err,
                                    retryCount := (if st = Failed then retryCount farm + 1
                                                   else retryCount farm),
                                    lastAttempt := Some t\<rparr>) (find (\<lambda>f. farm_id f = i) fs)
           else find (\<lambda>f. farm_id f = i) fs)" for fs t
    by (induction fs) auto
  show ?thesis by (simp add: farm_with_def updateFarmStatus_def aux)
qed

lemma farm_with_removeOfflineFarm:
  "farm_with i (removeOfflineFarm j s) = (if i = j then None else farm_with i s)"
proof -
  have aux: "find (\<lambda>f. farm_id f = i) (filter (\<lambda>farm. farm_id farm \<noteq> j) fs)
          = (if i = j then None else find (\<lambda>f. farm_id f = i) fs)" for fs
    by (induction fs) auto
  show ?thesis by (simp add: farm_with_def removeOfflineFarm_def aux)
qed

lemma farm_with_fields [simp]:
  "farm_with i (s\<lparr>remote := w\<rparr>) = farm_with i s"
  "farm_with i (s\<lparr>trace := tr\<rparr>) = farm_with i s"
  "farm_with i (s\<lparr>now := t\<rparr>) = farm_with i s"
  "farm_with i (s\<lparr>lastSync := l\<rparr>) = farm_with i s"
  by (simp_all add: farm_with_def)

lemma syncSingleFarm_other:
  "farm_id g \<noteq> i \<Longrightarrow> farm_with i (snd (syncSingleFarm cf g s)) = farm_with i s"
  by (simp add: syncSingleFarm_def Let_def farm_with_updateFarmStatus farm_with_removeOfflineFarm
           split: prod.splits write_outcome.splits)

lemma syncSingleFarm_refused:
  assumes "fst (cf (remote s) (farmerId g) (farmData g)) = Refused m"
      and "farm_with (farm_id g) s = Some f"
  shows "\<exists>f'. farm_with (farm_id g) (snd (syncSingleFarm cf g s)) = Some f'
             \<and> status f' = Failed \<and> retryCount f' = retryCount f + 1
             \<and> farmerId f' = farmerId f \<and> farmData f' = farmData f"
  using assms
  by (auto simp: syncSingleFarm_def Let_def farm_with_updateFarmStatus
           split: prod.splits write_outcome.splits)

lemma farm_with_SomeD:
  "farm_with i s = Some f \<Longrightarrow> f \<in> set (farms s) \<and> farm_id f = i"
  by (auto simp: farm_with_def find_Some_iff)

subsection \<open>Manual retry\<close>

text \<open>
  C10. \<^verbatim>\<open>retryFailedFarm\<close> fails with \<^verbatim>\<open>'Farm not found'\<close> exactly when no entry has the
  identifier; with \<^verbatim>\<open>'Farm is not in failed state'\<close> exactly when the entry exists with a
  status other than failed, connected or not; with \<^verbatim>\<open>'No network connection'\<close> exactly
  when the entry exists, is failed, and there is no connection. A failing call leaves the
  queue unchanged. Otherwise the entry is replayed, whatever its retry count; when that
  replay is refused, the entry stays failed and its retry count has grown by one.
\<close>

theorem retryFailedFarm_checks:
  "(fst (retryFailedFarm cf i ni s) = Inl FarmNotFound) = (farm_with i s = None)
   \<and> (fst (retryFailedFarm cf i ni s) = Inl FarmNotInFailedState)
       = (\<exists>f. farm_with i s = Some f \<and> status f \<noteq> Failed)
   \<and> (fst (retryFailedFarm cf i ni s) = Inl NoNetwork)
       = (\<exists>f. farm_with i s = Some f \<and> status f = Failed \<and> \<not> connected_of ni)
   \<and> (\<forall>e. fst (retryFailedFarm cf i ni s) = Inl e \<longrightarrow> snd (retryFailedFarm cf i ni s) = s)
   \<and> (\<forall>f. farm_with i s = Some f \<and> status f = Failed \<and> connected_of ni \<longrightarrow>
          retryFailedFarm cf i ni s
            = (Inr (fst (syncSingleFarm cf f s)), snd (syncSingleFarm cf f s)))
   \<and> (\<forall>f m. farm_with i s = Some f \<and> status f = Failed \<and> connected_of ni
            \<and> fst (cf (remote s) (farmerId f) (farmData f)) = Refused m \<longrightarrow>
          (\<exists>f'. farm_with i (snd (retryFailedFarm cf i ni s)) = Some f'
                \<and> status f' = Failed \<and> retryCount f' = retryCount f + 1))"
proof (intro conjI allI impI)
  show "(fst (retryFailedFarm cf i ni s) = Inl FarmNotFound) = (farm_with i s = None)"
    by (auto simp: retryFailedFarm_def split: option.splits prod.splits)
  show "(fst (retryFailedFarm cf i ni s) = Inl FarmNotInFailedState)
          = (\<exists>f. farm_with i s = Some f \<and> status f \<noteq> Failed)"
    by (auto simp: retryFailedFarm_def split: option.splits prod.splits)
  show "(fst (retryFailedFarm cf i ni s) = Inl NoNetwork)
          = (\<exists>f. farm_with i s = Some f \<and> status f = Failed \<and> \<not> connected_of ni)"
    by (auto simp: retryFailedFarm_def split: option.splits prod.splits)
next
  fix e assume "fst (retryFailedFarm cf i ni s) = Inl e"
  then show "snd (retryFailedFarm cf i ni s) = s"
    by (auto simp: retryFailedFarm_def split: option.splits prod.splits if_splits)
next
  fix f assume "farm_with i s = Some f \<and> status f = Failed \<and> connected_of ni"
  then show "retryFailedFarm cf i ni s
               = (Inr (fst (syncSingleFarm cf f s)), snd (syncSingleFarm cf f s))"
    by (simp add: retryFailedFarm_def split: prod.splits)
next
  fix f m
  assume a: "farm_with i s = Some f \<and> status f = Failed \<and> connected_of ni
               \<and> fst (cf (remote s) (farmerId f) (farmData f)) = Refused m"
  then have id: "farm_id f = i" using farm_with_SomeD [of i s f] by simp
  have "\<exists>f'. farm_with (farm_id f) (snd (syncSingleFarm cf f s)) = Some f'
             \<and> status f' = Failed \<and> retryCount f' = retryCount f + 1
             \<and> farmerId f' = farmerId f \<and> farmData f' = farmData f"
    using a id syncSingleFarm_refused [of cf s f m f] by simp
  then show "\<exists>f'. farm_with i (snd (retryFailedFarm cf i ni s)) = Some f'
                \<and> status f' = Failed \<and> retryCount f' = retryCount f + 1"
    using a id by (auto simp: retryFailedFarm_def split: prod.splits)
qed

theorem retryFailedFarm_checks_witness:
  "fst (retryFailedFarm refusing ''offline_9'' offline (queue_of [queued Pending 7])) = Inl FarmNotFound
   \<and> fst (retryFailedFarm refusing ''offline_1'' offline (queue_of [queued Pending 7]))
       = Inl FarmNotInFailedState
   \<and> fst (retryFailedFarm refusing ''offline_1'' offline (queue_of [queued Failed 7])) = Inl NoNetwork
   \<and> (\<exists>f'. farm_with ''offline_1''
              (snd (retryFailedFarm refusing ''offline_1'' online (queue_of [queued Failed 7])))
              = Some f'
          \<and> status f' = Failed \<and> retryCount f' = 8)"
proof -
  let ?p = "queue_of [queued Pending 7]" and ?q = "queue_of [queued Failed 7]"
  have none: "farm_with ''offline_9'' ?p = None"
    by (simp add: farm_with_def queue_of_def queued_def)
  have p: "farm_with ''offline_1'' ?p = Some (queued Pending 7) \<and> status (queued Pending 7) \<noteq> Failed"
    by (simp add: farm_with_def queue_of_def queued_def)
  have q: "farm_with ''offline_1'' ?q = Some (queued Failed 7) \<and> status (queued Failed 7) = Failed"
    by (simp add: farm_with_def queue_of_def queued_def)
  have off: "\<not> connected_of offline" and on: "connected_of online"
    by (simp_all add: connected_of_def offline_def online_def)
  have rej: "fst (refusing (remote ?q) (farmerId (queued Failed 7)) (farmData (queued Failed 7)))
               = Refused ''server error''"
    by (simp add: refusing_def)
  have rc: "retryCount (queued Failed 7) + 1 = 8" by (simp add: queued_def)
  have 1: "fst (retryFailedFarm refusing ''offline_9'' offline ?p) = Inl FarmNotFound"
    using retryFailedFarm_checks [where cf = refusing and i = "''offline_9''" and ni = offline
            and s = ?p] none by blast
  have 2: "fst (retryFailedFarm refusing ''offline_1'' offline ?p) = Inl FarmNotInFailedState"
    using retryFailedFarm_checks [where cf = refusing and i = "''offline_1''" and ni = offline
            and s = ?p] p by blast
  have 3: "fst (retryFailedFarm refusing ''offline_1'' offline ?q) = Inl NoNetwork"
    using retryFailedFarm_checks [where cf = refusing and i = "''offline_1''" and ni = offline
            and s = ?q] q off by blast
  have 4: "\<exists>f'. farm_with ''offline_1'' (snd (retryFailedFarm refusing ''offline_1'' online ?q))
                  = Some f'
              \<and> status f' = Failed \<and> retryCount f' = retryCount (queued Failed 7) + 1"
    using retryFailedFarm_checks [where cf = refusing and i = "''offline_1''" and ni = online
            and s = ?q] q on rej by blast
  show ?thesis using 1 2 3 4 rc by simp
qed

subsection \<open>The retry ceiling\<close>

lemma updateFarmStatus_ids:
  "map farm_id (farms (updateFarmStatus j st err s)) = map farm_id (farms s)"
  by (simp add: updateFarmStatus_def comp_def cong: map_cong)

lemma removeOfflineFarm_ids:
  "distinct (map farm_id (farms s)) \<Longrightarrow> distinct (map farm_id (farms (removeOfflineFarm j s)))"
  by (simp add: removeOfflineFarm_def distinct_map_filter)

lemma syncSingleFarm_ids:
  assumes "distinct (map farm_id (farms s))"
  shows "distinct (map farm_id (farms (snd (syncSingleFarm cf g s))))"
proof -
  let ?s1 = "updateFarmStatus (farm_id g) Syncing None s"
  obtain r w where c: "cf (remote ?s1) (farmerId g) (farmData g) = (r, w)"
    by (cases "cf (remote ?s1) (farmerId g) (farmData g)")
  let ?s2 = "?s1\<lparr>remote := w, trace := trace ?s1 @ [WriterCalled (farm_id g), WriterSettled (farm_id g)]\<rparr>"
  have d2: "distinct (map farm_id (farms ?s2))"
    using assms by (simp add: updateFarmStatus_ids)
  show ?thesis
  proof (cases r)
    case Created
    have "distinct (map farm_id (farms (updateFarmStatus (farm_id g) Synced None ?s2)))"
      using d2 by (simp only: updateFarmStatus_ids)
    then have "distinct (map farm_id (farms (removeOfflineFarm (farm_id g)
                 (updateFarmStatus (farm_id g) Synced None ?s2))))"
      by (rule removeOfflineFarm_ids)
    then show ?thesis using c Created by (simp add: syncSingleFarm_def Let_def)
  next
    case (Refused m)
    have "distinct (map farm_id (farms (updateFarmStatus (farm_id g) Failed (Some m) ?s2)))"
      using d2 by (simp only: updateFarmStatus_ids)
    then show ?thesis using c Refused by (simp add: syncSingleFarm_def Let_def)
  qed
qed

lemma sync_loop_ids:
  "distinct (map farm_id (farms s)) \<Longrightarrow> distinct (map farm_id (farms (snd (sync_loop cf gs s))))"
proof (induction gs arbitrary: s)
  case Nil
  then show ?case by simp
next
  case (Cons g gs)
  obtain r s1 where a: "syncSingleFarm cf g s = (r, s1)" by (cases "syncSingleFarm cf g s")
  let ?s' = "s1\<lparr>now := now s1 + 500, trace := trace s1 @ [Delay 500]\<rparr>"
  obtain rs s2 where b: "sync_loop cf gs ?s' = (rs, s2)" by (cases "sync_loop cf gs ?s'")
  have "distinct (map farm_id (farms s1))"
    using syncSingleFarm_ids [OF Cons.prems, of cf g] a by simp
  then have "distinct (map farm_id (farms ?s'))" by simp
  then have "distinct (map farm_id (farms (snd (sync_loop cf gs ?s'))))" by (rule Cons.IH)
  then show ?case using a b by simp
qed

lemma syncAllFarms_ids:
  assumes "distinct (map farm_id (farms s))"
  shows "distinct (map farm_id (farms (snd (syncAllFarms cf ni s))))"
proof -
  obtain rs s1 where a: "sync_loop cf (filter selected (farms s)) s = (rs, s1)"
    by (cases "sync_loop cf (filter selected (farms s)) s")
  have "distinct (map farm_id (farms s1))"
    using sync_loop_ids [OF assms, of cf "filter selected (farms s)"] a by simp
  then show ?thesis using assms a by (simp add: syncAllFarms_def Let_def)
qed

lemma sync_loop_other:
  "i \<notin> farm_id ` set gs \<Longrightarrow> farm_with i (snd (sync_loop cf gs s)) = farm_with i s"
proof (induction gs arbitrary: s)
  case Nil
  show ?case by simp
next
  case (Cons g gs)
  obtain r s1 where a: "syncSingleFarm cf g s = (r, s1)" by (cases "syncSingleFarm cf g s")
  let ?s' = "s1\<lparr>now := now s1 + 500, trace := trace s1 @ [Delay 500]\<rparr>"
  obtain rs s2 where b: "sync_loop cf gs ?s' = (rs, s2)" by (cases "sync_loop cf gs ?s'")
  have "farm_with i s1 = farm_with i s"
    using syncSingleFarm_other [of g i cf s] a Cons.prems by auto
  moreover have "farm_with i (snd (sync_loop cf gs ?s')) = farm_with i ?s'"
    using Cons.prems by (intro Cons.IH) simp
  ultimately show ?case using a b by simp
qed

lemma sync_loop_refused:
  assumes "distinct (map farm_id gs)" and "g \<in> set gs"
      and "\<forall>w. fst (cf w (farmerId g) (farmData g)) \<noteq> Created"
      and "farm_with (farm_id g) s = Some f"
  shows "\<exists>f'. farm_with (farm_id g) (snd (sync_loop cf gs s)) = Some f'
             \<and> status f' = Failed \<and> retryCount f' = retryCount f + 1
             \<and> farmerId f' = farmerId f \<and> farmData f' = farmData f"
  using assms
proof (induction gs arbitrary: s f)
  case Nil
  then show ?case by simp
next
  case (Cons h gs)
  obtain r s1 where a: "syncSingleFarm cf h s = (r, s1)" by (cases "syncSingleFarm cf h s")
  let ?s' = "s1\<lparr>now := now s1 + 500, trace := trace s1 @ [Delay 500]\<rparr>"
  obtain rs s2 where b: "sync_loop cf gs ?s' = (rs, s2)" by (cases "sync_loop cf gs ?s'")
  have res: "snd (sync_loop cf (h # gs) s) = snd (sync_loop cf gs ?s')" using a b by simp
  show ?case
  proof (cases "h = g")
    case True
    obtain m where m: "fst (cf (remote s) (farmerId g) (farmData g)) = Refused m"
      using Cons.prems(3) by (cases "fst (cf (remote s) (farmerId g) (farmData g))") auto
    obtain f' where f': "farm_with (farm_id g) s1 = Some f'" "status f' = Failed"
        "retryCount f' = retryCount f + 1" "farmerId f' = farmerId f" "farmData f' = farmData f"
      using syncSingleFarm_refused [of cf s g m f] m Cons.prems(4) a True by auto
    have "farm_id g \<notin> farm_id ` set gs" using Cons.prems(1) True by auto
    then have "farm_with (farm_id g) (snd (sync_loop cf gs ?s')) = farm_with (farm_id g) ?s'"
      by (rule sync_loop_other)
    then show ?thesis using f' res by simp
  next
    case False
    then have g: "g \<in> set gs" using Cons.prems(2) by simp
    then have "farm_id h \<noteq> farm_id g" using Cons.prems(1) by auto
    then have "farm_with (farm_id g) s1 = Some f"
      using syncSingleFarm_other [of h "farm_id g" cf s] a Cons.prems(4) by simp
    then have "farm_with (farm_id g) ?s' = Some f" by simp
    moreover have "distinct (map farm_id gs)" using Cons.prems(1) by simp
    ultimately show ?thesis using Cons.IH [of ?s' f] g Cons.prems(3) res by simp
  qed
qed

lemma farm_with_unique:
  assumes "distinct (map farm_id (farms s))" and "farm_with i s = Some f"
      and "g \<in> set (farms s)" and "farm_id g = i"
  shows "g = f"
proof -
  have "inj_on farm_id (set (farms s))" using assms(1) by (simp add: distinct_map)
  moreover have "f \<in> set (farms s)" "farm_id f = i" using farm_with_SomeD [OF assms(2)] by simp_all
  ultimately show ?thesis using assms(3,4) by (auto dest: inj_onD)
qed

lemma syncAllFarms_refused:
  assumes "distinct (map farm_id (farms s))" and "farm_with i s = Some f" and "selected f"
      and "connected_of ni" and "\<forall>w. fst (cf w (farmerId f) (farmData f)) \<noteq> Created"
  shows "\<exists>f'. farm_with i (snd (syncAllFarms cf ni s)) = Some f'
             \<and> status f' = Failed \<and> retryCount f' = retryCount f + 1
             \<and> farmerId f' = farmerId f \<and> farmData f' = farmData f"
proof -
  let ?gs = "filter selected (farms s)"
  have f: "f \<in> set (farms s)" "farm_id f = i" using farm_with_SomeD [OF assms(2)] by simp_all
  then have mem: "f \<in> set ?gs" using assms(3) by simp
  have dist: "distinct (map farm_id ?gs)" using assms(1) by (rule distinct_map_filter)
  obtain rs s1 where a: "sync_loop cf ?gs s = (rs, s1)" by (cases "sync_loop cf ?gs s")
  have "\<exists>f'. farm_with (farm_id f) (snd (sync_loop cf ?gs s)) = Some f'
             \<and> status f' = Failed \<and> retryCount f' = retryCount f + 1
             \<and> farmerId f' = farmerId f \<and> farmData f' = farmData f"
    using dist mem assms(5) assms(2) f(2) by (intro sync_loop_refused) simp_all
  moreover have "?gs \<noteq> []" using mem by (auto simp: filter_empty_conv)
  ultimately show ?thesis using a assms(4) f(2) by (simp add: syncAllFarms_def Let_def)
qed

lemma syncAllFarms_skipped:
  assumes "distinct (map farm_id (farms s))" and "farm_with i s = Some f" and "\<not> selected f"
  shows "farm_with i (snd (syncAllFarms cf ni s)) = Some f"
proof -
  let ?gs = "filter selected (farms s)"
  have "i \<notin> farm_id ` set ?gs"
  proof
    assume "i \<in> farm_id ` set ?gs"
    then obtain g where g: "g \<in> set (farms s)" "selected g" "farm_id g = i" by auto
    then have "g = f" using farm_with_unique [OF assms(1,2)] by simp
    then show False using g(2) assms(3) by simp
  qed
  then have "farm_with i (snd (sync_loop cf ?gs s)) = farm_with i s" by (rule sync_loop_other)
  then show ?thesis
    using assms(2) by (auto simp: syncAllFarms_def Let_def split: prod.splits)
qed

lemma replay_passes_refused:
  assumes "distinct (map farm_id (farms s))" and "farm_with i s = Some f"
      and "is_pending_or_failed f"
      and "\<forall>w. fst (cf w (farmerId f) (farmData f)) \<noteq> Created"
      and "\<forall>ni \<in> set nis. connected_of ni"
      and "retryCount f + length nis \<le> 5"
  shows "\<exists>f'. farm_with i (replay_passes cf nis s) = Some f'
             \<and> retryCount f' = retryCount f + length nis
             \<and> (if nis = [] then f' = f else status f' = Failed)
             \<and> distinct (map farm_id (farms (replay_passes cf nis s)))"
  using assms
proof (induction nis arbitrary: s f)
  case Nil
  then show ?case by simp
next
  case (Cons ni nis)
  let ?s1 = "snd (syncAllFarms cf ni s)"
  have sel: "selected f" using Cons.prems(3,6) by (simp add: selected_def is_pending_or_failed_def)
  have conn: "connected_of ni" using Cons.prems(5) by simp
  obtain f1 where f1: "farm_with i ?s1 = Some f1" "status f1 = Failed"
      "retryCount f1 = retryCount f + 1" "farmerId f1 = farmerId f" "farmData f1 = farmData f"
    using syncAllFarms_refused [where s = s and i = i and f = f and ni = ni and cf = cf]
          Cons.prems(1,2,4) sel conn by auto
  have d1: "distinct (map farm_id (farms ?s1))" using Cons.prems(1) by (rule syncAllFarms_ids)
  have "\<exists>f'. farm_with i (replay_passes cf nis ?s1) = Some f'
             \<and> retryCount f' = retryCount f1 + length nis
             \<and> (if nis = [] then f' = f1 else status f' = Failed)
             \<and> distinct (map farm_id (farms (replay_passes cf nis ?s1)))"
    using d1 f1 Cons.prems(4,5,6)
    by (intro Cons.IH) (simp_all add: is_pending_or_failed_def)
  then show ?case using f1 by (auto split: if_splits)
qed

lemma replay_passes_skipped:
  assumes "distinct (map farm_id (farms s))" and "farm_with i s = Some f" and "\<not> selected f"
  shows "farm_with i (replay_passes cf nis s) = Some f"
  using assms
proof (induction nis arbitrary: s)
  case Nil
  then show ?case by simp
next
  case (Cons ni nis)
  let ?s1 = "snd (syncAllFarms cf ni s)"
  have "distinct (map farm_id (farms ?s1))" using Cons.prems(1) by (rule syncAllFarms_ids)
  moreover have "farm_with i ?s1 = Some f" using Cons.prems by (rule syncAllFarms_skipped)
  ultimately show ?case using Cons.IH [of ?s1] Cons.prems(3) by simp
qed

text \<open>
  C4. Take a queue with distinct identifiers, an entry of it that is pending with retry
  count 0, and a remote writer that refuses this entry's data whenever it is called.
  After five batch replays made with a connection the entry has status failed and retry
  count 5, and any number of further batch replays, with any remote writer and any
  connectivity, leave the entry exactly as it is.
\<close>

theorem retry_ceiling:
  assumes "distinct (map farm_id (farms s))" and "farm_with i s = Some f"
      and "status f = Pending" and "retryCount f = 0"
      and "\<forall>w. fst (cf w (farmerId f) (farmData f)) \<noteq> Created"
      and "length nis = 5" and "\<forall>ni \<in> set nis. connected_of ni"
  shows "\<exists>f'. farm_with i (replay_passes cf nis s) = Some f'
             \<and> status f' = Failed \<and> retryCount f' = 5
             \<and> (\<forall>cf' nis'. farm_with i (replay_passes cf' nis' (replay_passes cf nis s)) = Some f')"
proof -
  have pf: "is_pending_or_failed f" using assms(3) by (simp add: is_pending_or_failed_def)
  have le: "retryCount f + length nis \<le> 5" using assms(4,6) by simp
  have ne: "nis \<noteq> []" using assms(6) by auto
  obtain f' where f': "farm_with i (replay_passes cf nis s) = Some f'"
      "retryCount f' = retryCount f + length nis" "status f' = Failed"
      "distinct (map farm_id (farms (replay_passes cf nis s)))"
    using replay_passes_refused [where s = s and i = i and f = f and nis = nis and cf = cf]
          assms(1,2,5,7) pf le ne by auto
  have "\<not> selected f'" using f'(2) assms(4,6) by (simp add: selected_def)
  then have "\<forall>cf' nis'. farm_with i (replay_passes cf' nis' (replay_passes cf nis s)) = Some f'"
    using replay_passes_skipped [OF f'(4) f'(1)] by blast
  then show ?thesis using f' assms(4,6) by simp
qed

theorem retry_ceiling_witness:
  "\<exists>f'. farm_with ''offline_1''
           (replay_passes refusing [online, online, online, online, online]
              (queue_of [queued Pending 0])) = Some f'
        \<and> status f' = Failed \<and> retryCount f' = 5
        \<and> farm_with ''offline_1''
            (replay_passes accepting [online, offline]
               (replay_passes refusing [online, online, online, online, online]
                  (queue_of [queued Pending 0]))) = Some f'"
proof -
  have "\<exists>f'. farm_with ''offline_1''
           (replay_passes refusing [online, online, online, online, online]
              (queue_of [queued Pending 0])) = Some f'
        \<and> status f' = Failed \<and> retryCount f' = 5
        \<and> (\<forall>cf' nis'. farm_with ''offline_1''
            (replay_passes cf' nis'
               (replay_passes refusing [online, online, online, online, online]
                  (queue_of [queued Pending 0]))) = Some f')"
    by (rule retry_ceiling [where f = "queued Pending 0"])
       (simp_all add: queue_of_def queued_def farm_with_def refusing_def connected_of_def online_def)
  then show ?thesis by blast
qed

end
